theory Spec2Isabelle
  imports Main "HOL-Library.Word"
begin

unbundle bit_operations_syntax

section \<open>The generic seq\_file table: \<open>struct seq_tab\<close>\<close>

text \<open>
  Negative return codes of the file. \<open>errno_val\<close> gives the value the C function
  returns for each.
\<close>

datatype errno = EINVAL | EFBIG | ENXIO | ENOMEM | ERANGE | EFAULT

fun errno_val :: "errno \<Rightarrow> int" where
  "errno_val EINVAL = - 22"
| "errno_val EFBIG = - 27"
| "errno_val ENXIO = - 6"
| "errno_val ENOMEM = - 12"
| "errno_val ERANGE = - 34"
| "errno_val EFAULT = - 14"

text \<open>
  The \<open>void *\<close> an iterator hands to the seq\_file core: \<open>NULL\<close> (end of the
  sequence), \<open>SEQ_START_TOKEN\<close> (the header line), or a pointer into \<open>tb->data\<close>,
  kept as its byte offset from \<open>tb->data\<close>.
\<close>

datatype handle = NULL | SEQ_START_TOKEN | DataPtr int

text \<open>
  \<open>struct seq_tab\<close>: \<open>rows\<close> and \<open>width\<close> are \<open>unsigned int\<close>, \<open>skip_first\<close> is
  the header flag, stored as 0 or 1. The row bytes \<open>data[]\<close> and the \<open>show\<close> callback
  play no part in the iteration and are left out. File positions are \<open>loff_t\<close>, a
  signed 64-bit integer, modelled as \<open>int\<close>.
\<close>

record seq_tab =
  rows :: nat
  width :: nat
  skip_first :: nat

definition seq_tab_get_idx :: "seq_tab \<Rightarrow> int \<Rightarrow> handle" where
  "seq_tab_get_idx tb pos =
     (let pos1 = pos - int (skip_first tb)
      in if pos1 \<ge> int (rows tb) then NULL else DataPtr (pos1 * int (width tb)))"

definition seq_tab_start :: "seq_tab \<Rightarrow> int \<Rightarrow> handle" where
  "seq_tab_start tb pos =
     (if skip_first tb \<noteq> 0 \<and> pos = 0 then SEQ_START_TOKEN
      else seq_tab_get_idx tb pos)"

text \<open>\<open>seq_tab_next\<close> returns the new handle and the updated \<open>*pos\<close>.\<close>

definition seq_tab_next :: "seq_tab \<Rightarrow> handle \<Rightarrow> int \<Rightarrow> handle \<times> int" where
  "seq_tab_next tb v pos =
     (let v1 = seq_tab_get_idx tb (pos + 1)
      in if v1 \<noteq> NULL then (v1, pos + 1) else (v1, pos))"

text \<open>
  \<open>seq_tab_show\<close> recovers the row index it passes to the \<open>show\<close> callback as
  \<open>((char *)v - tb->data) / tb->width\<close>; C division truncates towards zero and a
  zero width is a division by zero (\<open>None\<close>).
\<close>

definition seq_tab_show_idx :: "seq_tab \<Rightarrow> int \<Rightarrow> int option" where
  "seq_tab_show_idx tb off =
     (if width tb = 0 then None
      else Some (sgn off * (\<bar>off\<bar> div int (width tb))))"

text \<open>
  \<open>seq_open_tab\<close>: \<open>alloc_ok\<close> says whether \<open>__seq_open_private\<close> returned memory;
  when it did not the function returns \<open>NULL\<close>.
\<close>

definition seq_open_tab :: "bool \<Rightarrow> nat \<Rightarrow> nat \<Rightarrow> nat \<Rightarrow> seq_tab option" where
  "seq_open_tab alloc_ok nrows w have_header =
     (if alloc_ok
      then Some \<lparr>rows = nrows, width = w,
                 skip_first = (if have_header \<noteq> 0 then 1 else 0)\<rparr>
      else None)"

text \<open>
  \<open>seq_tab_trim\<close> mutates \<open>*p\<close> and returns an \<open>int\<close>: the model returns the
  return value together with the table as the call leaves it.
\<close>

definition seq_tab_trim :: "seq_tab \<Rightarrow> nat \<Rightarrow> int \<times> seq_tab" where
  "seq_tab_trim p new_rows =
     (if new_rows > rows p then (errno_val EINVAL, p)
      else (0, p\<lparr>rows := new_rows\<rparr>))"

text \<open>
  \<open>cim_obq_open\<close>, where the trim is used: the table is opened with
  \<open>6 * CIM_OBQ_SIZE\<close> rows of four 32-bit words, no header, and trimmed to the rows
  that \<open>t4_read_cim_obq\<close> has filled; \<open>ret\<close> is that function's return value, the
  number of words read or a negative error. \<open>CIM_OBQ_SIZE\<close> is a macro of the headers
  and a parameter here. The return value of \<open>seq_tab_trim\<close> is not looked at.
\<close>

definition cim_obq_open :: "nat \<Rightarrow> bool \<Rightarrow> int \<Rightarrow> int + seq_tab" where
  "cim_obq_open CIM_OBQ_SIZE alloc_ok ret =
     (case seq_open_tab alloc_ok (6 * CIM_OBQ_SIZE) (4 * 4) 0 of
        None \<Rightarrow> Inl (errno_val ENOMEM)
      | Some p \<Rightarrow>
          if ret < 0 then Inl ret
          else Inr (snd (seq_tab_trim p (nat (ret div 4)))))"

text \<open>
  The way the seq\_file core drives an iterator: \<open>start\<close> at position 0, then \<open>next\<close>
  once per advance. \<open>seq_tab_walk tb k\<close> is the handle and position after the start
  and \<open>k\<close> advances.
\<close>

fun seq_tab_walk :: "seq_tab \<Rightarrow> nat \<Rightarrow> handle \<times> int" where
  "seq_tab_walk tb 0 = (seq_tab_start tb 0, 0)"
| "seq_tab_walk tb (Suc k) =
     (case seq_tab_walk tb k of (v, pos) \<Rightarrow> seq_tab_next tb v pos)"

section \<open>The firmware device log\<close>

text \<open>
  A \<open>__be32\<close> field is four bytes in memory, most significant first;
  \<open>be32_to_cpu\<close> reads them as a number, whatever the byte order of the host.
\<close>

datatype be32 = BE32 "8 word" "8 word" "8 word" "8 word"

fun be32_to_cpu :: "be32 \<Rightarrow> 32 word" where
  "be32_to_cpu (BE32 b0 b1 b2 b3) =
     push_bit 24 (ucast b0) OR push_bit 16 (ucast b1) OR push_bit 8 (ucast b2) OR ucast b3"

text \<open>
  \<open>struct fw_devlog_e\<close>. The \<open>__be64 timestamp\<close> is kept as the raw 64-bit
  field: the code only tests it against zero before printing it, and zero is zero in
  either byte order.
\<close>

record fw_devlog_e =
  timestamp :: "64 word"
  seqno :: be32
  level :: "8 word"
  facility :: "8 word"
  fmt :: string
  params :: "be32 list"

text \<open>\<open>struct devlog_info\<close>; \<open>nentries\<close> and \<open>first\<close> are \<open>unsigned int\<close>.\<close>

record devlog_info =
  nentries :: nat
  first :: nat
  log :: "fw_devlog_e list"

text \<open>
  What \<open>devlog_show\<close> prints: the header line, or the line of one entry (its
  sequence number, timestamp, level, facility and formatted message).
\<close>

datatype devlog_line = DevlogHeader | DevlogEntry fw_devlog_e




text \<open>
  The index computation of \<open>devlog_show\<close>: \<open>fidx = v - 2\<close>, then
  \<open>index = dinfo->first + fidx\<close> in \<open>unsigned int\<close> arithmetic (modulo \<open>2^32\<close>),
  widened to \<open>unsigned long\<close>, and one subtraction of \<open>nentries\<close> if it is not
  below it.
\<close>

definition devlog_index :: "devlog_info \<Rightarrow> int \<Rightarrow> int" where
  "devlog_index dinfo v =
     (let fidx = v - 2;
          index = (int (first dinfo) + fidx) mod 2 ^ 32
      in if index \<ge> int (nentries dinfo) then index - int (nentries dinfo) else index)"

text \<open>
  \<open>devlog_show\<close> returns the lines it prints; \<open>None\<close> stands for a read outside
  \<open>dinfo->log\<close>.
\<close>

definition devlog_show :: "devlog_info \<Rightarrow> int \<Rightarrow> devlog_line list option" where
  "devlog_show dinfo v =
     (if v = 1 then Some [DevlogHeader]
      else let index = devlog_index dinfo v
           in if index < int (length (log dinfo))
              then (let e = log dinfo ! nat index
                    in if timestamp e = 0 then Some [] else Some [DevlogEntry e])
              else None)"

text \<open>
  The scan of \<open>devlog_open\<close> for the lowest sequence number; the loop state is
  \<open>index\<close>, \<open>fseqno\<close> and \<open>dinfo->first\<close>, and the result is the last two when
  the loop ends.
\<close>

function devlog_scan ::
  "fw_devlog_e list \<Rightarrow> nat \<Rightarrow> 32 word \<Rightarrow> nat \<Rightarrow> 32 word \<times> nat" where
  "devlog_scan lg index fseqno fst_idx =
     (if index < length lg
      then (let e = lg ! index
            in if timestamp e = 0 then devlog_scan lg (index + 1) fseqno fst_idx
               else (let sq = be32_to_cpu (seqno e)
                     in if sq < fseqno then devlog_scan lg (index + 1) sq index
                        else devlog_scan lg (index + 1) fseqno fst_idx))
      else (fseqno, fst_idx))"
  by pat_completeness auto
termination
  by (relation "measure (\<lambda>(lg, index, fseqno, fst_idx). length lg - index)") auto

text \<open>
  \<open>devlog_open\<close>. \<open>dstart\<close> is \<open>dparams->start\<close>, \<open>alloc_ok\<close> whether
  \<open>__seq_open_private\<close> returned memory, and \<open>mem\<close> what \<open>t4_memory_rw\<close> did:
  \<open>Inl ret\<close> for a nonzero return code, \<open>Inr lg\<close> for the log it read, as the array
  of \<open>dparams->size / sizeof(struct fw_devlog_e)\<close> entries. The result is the negative
  return code, or (for return code 0) the \<open>devlog_info\<close> left in \<open>seq->private\<close>.
\<close>

definition devlog_open ::
  "nat \<Rightarrow> bool \<Rightarrow> int + fw_devlog_e list \<Rightarrow> int + devlog_info" where
  "devlog_open dstart alloc_ok mem =
     (if dstart = 0 then Inl (errno_val ENXIO)
      else if \<not> alloc_ok then Inl (errno_val ENOMEM)
      else case mem of
             Inl ret \<Rightarrow> Inl ret
           | Inr lg \<Rightarrow>
               Inr \<lparr>nentries = length lg,
                    first = snd (devlog_scan lg 0 (NOT 0) 0),
                    log = lg\<rparr>)"





text \<open>
  The invariant of the scan once it has looked at the entries below \<open>index\<close>:
  either nothing was selected yet (no used entry so far has a sequence number below
  \<open>0xffffffff\<close>), or \<open>fst_idx\<close> is the lowest index of a used entry with the least
  sequence number seen, which is \<open>fseqno\<close>.
\<close>

definition devlog_scan_inv ::
  "fw_devlog_e list \<Rightarrow> nat \<Rightarrow> 32 word \<Rightarrow> nat \<Rightarrow> bool" where
  "devlog_scan_inv lg index fseqno fst_idx =
     ((fseqno = NOT 0 \<and> fst_idx = 0
        \<and> (\<forall>j < index. timestamp (lg ! j) \<noteq> 0 \<longrightarrow> be32_to_cpu (seqno (lg ! j)) = NOT 0))
      \<or> (fst_idx < index \<and> timestamp (lg ! fst_idx) \<noteq> 0
          \<and> be32_to_cpu (seqno (lg ! fst_idx)) = fseqno \<and> fseqno \<noteq> NOT 0
          \<and> (\<forall>j < index. timestamp (lg ! j) \<noteq> 0 \<longrightarrow> fseqno \<le> be32_to_cpu (seqno (lg ! j)))
          \<and> (\<forall>j < fst_idx. timestamp (lg ! j) \<noteq> 0 \<longrightarrow> fseqno < be32_to_cpu (seqno (lg ! j)))))"

text \<open>A log entry with the given raw timestamp and sequence-number bytes, for examples.\<close>

definition devlog_entry :: "64 word \<Rightarrow> be32 \<Rightarrow> fw_devlog_e" where
  "devlog_entry ts sq =
     \<lparr>timestamp = ts, seqno = sq, level = 0, facility = 0, fmt = [], params = []\<rparr>"

section \<open>Character classes and number parsing\<close>

text \<open>
  Modelled from the spec: \<open>isspace\<close>, \<open>isdigit\<close>, \<open>isxdigit\<close> and \<open>tolower\<close>
  belong to the kernel library and are not part of the file. The spec speaks of
  whitespace, of unsigned decimal numbers and of hex digits; the classes are given
  here by the byte values the kernel's character table puts in each: decimal digits
  are \<open>0\<close> to \<open>9\<close>, hex digits those and \<open>a\<close> to \<open>f\<close> in either case, white space is
  9 to 13, 32 and 160, upper case is \<open>A\<close> to \<open>Z\<close> and the Latin-1 capitals 192 to
  222 except 215.
\<close>

definition isdigit :: "char \<Rightarrow> bool" where
  "isdigit c = (48 \<le> (of_char c :: nat) \<and> (of_char c :: nat) \<le> 57)"

definition isxdigit :: "char \<Rightarrow> bool" where
  "isxdigit c =
     (isdigit c \<or> (97 \<le> (of_char c :: nat) \<and> (of_char c :: nat) \<le> 102)
                \<or> (65 \<le> (of_char c :: nat) \<and> (of_char c :: nat) \<le> 70))"

definition isspace :: "char \<Rightarrow> bool" where
  "isspace c = ((9 \<le> (of_char c :: nat) \<and> (of_char c :: nat) \<le> 13)
                \<or> (of_char c :: nat) = 32 \<or> (of_char c :: nat) = 160)"

definition isupper :: "char \<Rightarrow> bool" where
  "isupper c = ((65 \<le> (of_char c :: nat) \<and> (of_char c :: nat) \<le> 90)
                \<or> (192 \<le> (of_char c :: nat) \<and> (of_char c :: nat) \<le> 222
                    \<and> (of_char c :: nat) \<noteq> 215))"

definition tolower :: "char \<Rightarrow> char" where
  "tolower c = (if isupper c then char_of ((of_char c :: nat) + 32) else c)"

text \<open>
  \<open>xdigit2int\<close> of the file: \<open>isdigit(c) ? c - '0' : tolower(c) - 'a' + 10\<close>, an
  \<open>int\<close> expression returned as \<open>unsigned int\<close>.
\<close>

definition xdigit2int :: "char \<Rightarrow> 32 word" where
  "xdigit2int c =
     (if isdigit c then of_nat (of_char c) - 48
      else of_nat (of_char (tolower c)) - 97 + 10)"

text \<open>
  Modelled from the spec: \<open>hex2val\<close> is declared in the driver's header and is not
  part of the file. The spec has the key decoded from its hex digits, most significant
  first; the value of a hex digit is given by the same expression as \<open>xdigit2int\<close>.
\<close>

definition hex2val :: "char \<Rightarrow> 32 word" where
  "hex2val c = xdigit2int c"

section \<open>The field decoder\<close>









section \<open>The MPS TCAM\<close>

text \<open>
  \<open>tcamxy2valmask\<close>: the mask is \<open>x | y\<close>, the address the last six bytes of \<open>y\<close>
  stored big-endian, that is bits 47..40, 39..32, ..., 7..0 of \<open>y\<close>.
\<close>

definition tcamxy2valmask :: "64 word \<Rightarrow> 64 word \<Rightarrow> 8 word list \<times> 64 word" where
  "tcamxy2valmask x y = (map (\<lambda>i. ucast (drop_bit (40 - 8 * i) y)) [0..<6], x OR y)"

text \<open>
  A line of \<open>mps_tcam_show\<close> for entry \<open>idx\<close>: the dash line, or a decoded line
  with the Ethernet address and the mask. \<open>tcamx\<close> and \<open>tcamy\<close> are the two words
  the function has read from the chip for this entry (by either of its two register
  paths); the columns it prints after the mask, from the SRAM words and the
  replication map, are not modelled.
\<close>

datatype tcam_line = TcamDash nat | TcamRow nat "8 word list" "64 word"

definition mps_tcam_show :: "nat \<Rightarrow> 64 word \<Rightarrow> 64 word \<Rightarrow> tcam_line" where
  "mps_tcam_show idx tcamx tcamy =
     (if tcamx AND tcamy \<noteq> 0 then TcamDash idx
      else (case tcamxy2valmask tcamx tcamy of (addr, msk) \<Rightarrow> TcamRow idx addr msk))"

section \<open>The RSS key\<close>

text \<open>
  One key word of \<open>rss_key_write\<close>: eight characters at \<open>p\<close>, each a hex digit or
  the function returns \<open>-EINVAL\<close> (\<open>None\<close>). The string is the buffer up to the
  terminating zero the function has stored, so its end reads as that zero byte, which
  is no hex digit.
\<close>

fun rss_key_word :: "nat \<Rightarrow> 32 word \<Rightarrow> string \<Rightarrow> (32 word \<times> string) option" where
  "rss_key_word 0 k p = Some (k, p)"
| "rss_key_word (Suc j) k [] = None"
| "rss_key_word (Suc j) k (c # p) =
     (if \<not> isxdigit c then None
      else rss_key_word j (push_bit 4 k OR hex2val c) p)"

text \<open>
  The outer loop, \<open>i\<close> from 9 down to 0: \<open>rss_key_words n key p\<close> fills
  \<open>key[n - 1]\<close>, ..., \<open>key[0]\<close> in this order.
\<close>

fun rss_key_words :: "nat \<Rightarrow> 32 word list \<Rightarrow> string \<Rightarrow> 32 word list option" where
  "rss_key_words 0 key p = Some key"
| "rss_key_words (Suc i) key p =
     (case rss_key_word 8 0 p of
        None \<Rightarrow> None
      | Some (k, p1) \<Rightarrow> rss_key_words i (key[i := k]) p1)"

text \<open>
  \<open>rss_key_write\<close> on the \<open>count\<close> bytes \<open>buf\<close>; \<open>copy_ok\<close> says whether
  \<open>copy_from_user\<close> succeeded. \<open>s\<close> is the buffer up to the zero byte stored after
  the last character that is not white space. The result is the key handed to
  \<open>t4_write_rss_key\<close>, if the function got that far, and the return value.
\<close>

definition rss_key_write :: "bool \<Rightarrow> string \<Rightarrow> 32 word list option \<times> int" where
  "rss_key_write copy_ok buf =
     (let count = length buf
      in if count > 99 then (None, errno_val EINVAL)
         else if \<not> copy_ok then (None, errno_val EFAULT)
         else (let s = rev (dropWhile isspace (rev buf))
               in case rss_key_words 10 (replicate 10 0) s of
                    None \<Rightarrow> (None, errno_val EINVAL)
                  | Some key \<Rightarrow> (Some key, int count)))"

section \<open>The memory map\<close>

text \<open>\<open>struct mem_desc\<close>; \<open>base\<close> and \<open>limit\<close> are \<open>unsigned int\<close>.\<close>

record mem_desc =
  base :: "32 word"
  limit :: "32 word"
  idx :: nat

text \<open>\<open>mem_desc_cmp\<close>: the difference of the two bases, returned as \<open>int\<close>.\<close>

definition mem_desc_cmp :: "mem_desc \<Rightarrow> mem_desc \<Rightarrow> int" where
  "mem_desc_cmp a b = sint (base a - base b)"

text \<open>The names of \<open>region[]\<close> in \<open>meminfo_show\<close>.\<close>

definition region :: "string list" where
  "region = [''DBQ contexts:'', ''IMSG contexts:'', ''FLM cache:'', ''TCBs:'',
     ''Pstructs:'', ''Timers:'', ''Rx FL:'', ''Tx FL:'', ''Pstruct FL:'',
     ''Tx payload:'', ''Rx payload:'', ''LE hash:'', ''iSCSI region:'',
     ''TDDP region:'', ''TPT region:'', ''STAG region:'', ''RQ region:'',
     ''RQUDP region:'', ''PBL region:'', ''TXPBL region:'',
     ''DBVFIFO region:'', ''ULPRX state:'', ''ULPTX state:'',
     ''On-chip queues:'']"

text \<open>
  The loop of \<open>meminfo_show\<close> that follows the call of \<open>sort()\<close>, over the array
  \<open>mem[0 .. n - 1]\<close> as the sort has left it, from index \<open>i\<close> on: the array as the
  loop leaves it, and the calls of \<open>mem_region_show\<close> it makes, each with the index
  into \<open>region[]\<close>, \<open>from\<close> and \<open>to\<close>. The kernel's \<open>sort()\<close> is not part of
  the file; it orders the array by the sign of \<open>mem_desc_cmp\<close>, so the array it
  leaves is an argument here.
\<close>

function meminfo_loop ::
  "mem_desc list \<Rightarrow> nat \<Rightarrow> mem_desc list \<times> (nat \<times> 32 word \<times> 32 word) list" where
  "meminfo_loop mem i =
     (if i < length mem
      then (if idx (mem ! i) \<ge> length region then meminfo_loop mem (i + 1)
            else (let mem1 =
                        (if limit (mem ! i) = 0
                         then mem[i := (mem ! i)\<lparr>limit :=
                                 (if int i < int (length mem) - 1 then base (mem ! (i + 1)) - 1
                                  else NOT 0)\<rparr>]
                         else mem)
                  in case meminfo_loop mem1 (i + 1) of
                       (mem2, out) \<Rightarrow>
                         (mem2, (idx (mem1 ! i), base (mem1 ! i), limit (mem1 ! i)) # out)))
      else (mem, []))"
  by pat_completeness auto
termination
  by (relation "measure (\<lambda>(mem, i). length mem - i)") auto

declare meminfo_loop.simps [simp del]

section \<open>The trace filter command\<close>





text \<open>
  \<open>struct trace_params\<close> (declared in the driver's header): the pattern and mask
  words, two \<open>unsigned short\<close> lengths and four \<open>unsigned char\<close> fields. Every value
  the function stores into them fits the field.
\<close>

record trace_params =
  tp_data :: "32 word list"
  tp_mask :: "32 word list"
  snap_len :: nat
  min_len :: nat
  skip_ofst :: nat
  skip_len :: nat
  invert :: nat
  port :: nat


text \<open>
  What the function takes from outside the file: \<open>adap->trace_rss\<close> and
  \<open>adap->chan_map[]\<close>, the macros \<open>MAX_NPORTS\<close>, \<open>TFMINPKTSIZE_M\<close> and \<open>TRACE_LEN\<close>
  of the headers (\<open>tp.data\<close> and \<open>tp.mask\<close> have \<open>TRACE_LEN / 4\<close> words, and
  \<open>TRACE_LEN\<close> is a multiple of 4, so that the check \<open>i >= TRACE_LEN * 2\<close> keeps
  every access inside them), whether \<open>kzalloc\<close> and \<open>copy_from_user\<close> succeed, and
  the return value of \<open>t4_set_trace_filter\<close>.
\<close>

record trc_env =
  trace_rss :: bool
  chan_map :: "nat \<Rightarrow> nat"
  MAX_NPORTS :: nat
  TFMINPKTSIZE_M :: nat
  TRACE_LEN :: nat
  kzalloc_ok :: bool
  copy_ok :: bool
  set_filter_ret :: "trace_params option \<Rightarrow> bool \<Rightarrow> int"




































section \<open>Properties of the table cursor\<close>

lemma seq_tab_get_idx_bound:
  assumes "seq_tab_get_idx tb pos = DataPtr off" and "0 < width tb"
  shows "\<exists>i. seq_tab_show_idx tb off = Some i \<and> i < int (rows tb)
             \<and> i = pos - int (skip_first tb)"
proof -
  let ?p = "pos - int (skip_first tb)"
  from assms(1) have lt: "?p < int (rows tb)" and off: "off = ?p * int (width tb)"
    by (auto simp: seq_tab_get_idx_def Let_def split: if_splits)
  have w: "0 < int (width tb)" using assms(2) by simp
  have "sgn off * (\<bar>off\<bar> div int (width tb)) = ?p"
  proof (cases "0 \<le> ?p")
    case True
    then have "0 \<le> off" using off w by simp
    then show ?thesis using off w True
      by (cases "?p = 0") (simp_all add: sgn_if)
  next
    case False
    then have neg: "?p < 0" by simp
    then have "off < 0" using off w by (simp add: mult_neg_pos)
    moreover have "\<bar>off\<bar> = (- ?p) * int (width tb)" using off neg w
      by (simp add: abs_mult)
    ultimately show ?thesis using w by (simp add: sgn_if)
  qed
  then show ?thesis using lt assms(2) by (simp add: seq_tab_show_idx_def)
qed

text \<open>
  Where the walk stands after \<open>k\<close> advances: on the header token, on row
  \<open>k - skip_first\<close>, or at the end with the position left on the last handle.
\<close>

lemma seq_tab_walk_state:
  assumes "skip_first tb \<le> 1"
  shows "seq_tab_walk tb k =
     (if k \<ge> rows tb + skip_first tb then NULL
      else if k = 0 \<and> skip_first tb = 1 then SEQ_START_TOKEN
      else DataPtr (int (k - skip_first tb) * int (width tb)),
      int (min k (rows tb + skip_first tb - 1)))"
proof (induction k)
  case 0
  show ?case using assms
    by (auto simp: seq_tab_start_def seq_tab_get_idx_def Let_def)
next
  case (Suc k)
  show ?case
  proof (cases "Suc k \<ge> rows tb + skip_first tb")
    case True
    then show ?thesis using assms Suc
      by (auto simp: seq_tab_next_def seq_tab_get_idx_def Let_def min_def)
  next
    case False
    then have "int (Suc k - skip_first tb) = int k + 1 - int (skip_first tb)"
      using assms by auto
    then show ?thesis using assms Suc False
      by (auto simp: seq_tab_next_def seq_tab_get_idx_def Let_def min_def)
  qed
qed

lemma seq_tab_walk_end:
  "skip_first tb \<le> 1 \<Longrightarrow> fst (seq_tab_walk tb (rows tb + skip_first tb)) = NULL"
  by (simp add: seq_tab_walk_state)

lemma seq_tab_walk_before_end:
  "skip_first tb \<le> 1 \<Longrightarrow> k < rows tb + skip_first tb \<Longrightarrow>
   fst (seq_tab_walk tb k) =
     (if k = 0 \<and> skip_first tb = 1 then SEQ_START_TOKEN
      else DataPtr (int (k - skip_first tb) * int (width tb)))"
  by (simp add: seq_tab_walk_state)

lemma seq_tab_show_idx_row:
  assumes "0 < width tb"
  shows "seq_tab_show_idx tb (int m * int (width tb)) = Some (int m)"
proof (cases "m = 0")
  case True
  then show ?thesis using assms by (simp add: seq_tab_show_idx_def)
next
  case False
  then have "sgn (int m * int (width tb)) = 1"
    using assms by (simp add: sgn_mult)
  moreover have "\<bar>int m * int (width tb)\<bar> div int (width tb) = int m"
    using assms by (simp add: abs_mult)
  ultimately show ?thesis using assms by (simp add: seq_tab_show_idx_def)
qed

lemma seq_tab_walk_row_bound:
  assumes "skip_first tb \<le> 1" and "0 < width tb"
    and "fst (seq_tab_walk tb k) = DataPtr off"
  shows "\<exists>i. seq_tab_show_idx tb off = Some i \<and> 0 \<le> i \<and> i < int (rows tb)"
proof -
  from assms(1,3) have k: "k < rows tb + skip_first tb"
    and nt: "\<not> (k = 0 \<and> skip_first tb = 1)"
    and off: "off = int (k - skip_first tb) * int (width tb)"
    by (auto simp: seq_tab_walk_state split: if_splits)
  have "k - skip_first tb < rows tb" using k nt assms(1) by auto
  then show ?thesis
    using seq_tab_show_idx_row [OF assms(2), of "k - skip_first tb"] off by simp
qed

lemma seq_tab_start_bound:
  assumes "seq_tab_start tb pos = DataPtr off" and "0 < width tb"
  shows "\<exists>i. seq_tab_show_idx tb off = Some i \<and> i < int (rows tb)"
proof -
  from assms(1) have "seq_tab_get_idx tb pos = DataPtr off"
    by (simp add: seq_tab_start_def split: if_splits)
  from seq_tab_get_idx_bound [OF this assms(2)] show ?thesis by blast
qed

lemma seq_tab_next_bound:
  assumes "fst (seq_tab_next tb v pos) = DataPtr off" and "0 < width tb"
  shows "\<exists>i. seq_tab_show_idx tb off = Some i \<and> i < int (rows tb)"
proof -
  from assms(1) have "seq_tab_get_idx tb (pos + 1) = DataPtr off"
    by (simp add: seq_tab_next_def Let_def split: if_splits)
  from seq_tab_get_idx_bound [OF this assms(2)] show ?thesis by blast
qed

text \<open>
  C1. A table opened with \<open>nrows\<close> rows of positive width, started and advanced
  \<open>nrows\<close> times (\<open>nrows + 1\<close> times with a header), is at the end (\<open>NULL\<close>); before
  that every handle is the header token or a row, and no handle that \<open>start\<close> or
  \<open>next\<close> returns, at any position, has a row index at or beyond \<open>nrows\<close>.
\<close>

theorem seq_tab_cursor_reaches_end:
  assumes "seq_open_tab True nrows w have_header = Some tb" and "0 < w"
  shows "fst (seq_tab_walk tb (nrows + (if have_header \<noteq> 0 then 1 else 0))) = NULL
    \<and> (\<forall>k < nrows + (if have_header \<noteq> 0 then 1 else 0).
          fst (seq_tab_walk tb k) \<noteq> NULL)
    \<and> (\<forall>pos off. seq_tab_start tb pos = DataPtr off \<longrightarrow>
          (\<exists>i. seq_tab_show_idx tb off = Some i \<and> i < int nrows))
    \<and> (\<forall>v pos off. fst (seq_tab_next tb v pos) = DataPtr off \<longrightarrow>
          (\<exists>i. seq_tab_show_idx tb off = Some i \<and> i < int nrows))
    \<and> (\<forall>k off. fst (seq_tab_walk tb k) = DataPtr off \<longrightarrow>
          (\<exists>i. seq_tab_show_idx tb off = Some i \<and> 0 \<le> i \<and> i < int nrows))"
proof -
  from assms(1) have tb: "rows tb = nrows" "width tb = w"
    "skip_first tb = (if have_header \<noteq> 0 then 1 else 0)"
    by (auto simp: seq_open_tab_def)
  have sk: "skip_first tb \<le> 1" and wd: "0 < width tb"
    using tb assms(2) by auto
  have a: "fst (seq_tab_walk tb (nrows + (if have_header \<noteq> 0 then 1 else 0))) = NULL"
    using seq_tab_walk_end [OF sk] tb by simp
  have b: "\<forall>k < nrows + (if have_header \<noteq> 0 then 1 else 0).
             fst (seq_tab_walk tb k) \<noteq> NULL"
    using seq_tab_walk_before_end [OF sk] tb by simp
  have c: "\<forall>pos off. seq_tab_start tb pos = DataPtr off \<longrightarrow>
             (\<exists>i. seq_tab_show_idx tb off = Some i \<and> i < int nrows)"
    using seq_tab_start_bound [OF _ wd] tb(1) by blast
  have d: "\<forall>v pos off. fst (seq_tab_next tb v pos) = DataPtr off \<longrightarrow>
             (\<exists>i. seq_tab_show_idx tb off = Some i \<and> i < int nrows)"
    using seq_tab_next_bound [OF _ wd] tb(1) by blast
  have e: "\<forall>k off. fst (seq_tab_walk tb k) = DataPtr off \<longrightarrow>
             (\<exists>i. seq_tab_show_idx tb off = Some i \<and> 0 \<le> i \<and> i < int nrows)"
    using seq_tab_walk_row_bound [OF sk wd] tb(1) by blast
  from a b c d e show ?thesis by blast
qed

theorem seq_tab_cursor_reaches_end_witness:
  "seq_open_tab True 2 16 1 = Some \<lparr>rows = 2, width = 16, skip_first = 1\<rparr>
   \<and> (0::nat) < 16
   \<and> fst (seq_tab_walk \<lparr>rows = 2, width = 16, skip_first = 1\<rparr> 3) = NULL
   \<and> fst (seq_tab_walk \<lparr>rows = 2, width = 16, skip_first = 1\<rparr> 2) = DataPtr 16"
proof -
  have o: "seq_open_tab True 2 16 1 = Some \<lparr>rows = 2, width = 16, skip_first = 1\<rparr>"
    by (simp add: seq_open_tab_def)
  have w: "(0::nat) < 16" by simp
  have "fst (seq_tab_walk \<lparr>rows = 2, width = 16, skip_first = 1\<rparr> 3) = NULL"
    using seq_tab_cursor_reaches_end [OF o w] by simp
  moreover have "fst (seq_tab_walk \<lparr>rows = 2, width = 16, skip_first = 1\<rparr> 2) = DataPtr 16"
    by (simp add: numeral_2_eq_2 seq_tab_start_def seq_tab_next_def seq_tab_get_idx_def)
  ultimately show ?thesis using o w by simp
qed

text \<open>
  C4. On a table with a header flag of 0 or 1 and a positive width, \<open>seq_tab_trim\<close>
  with \<open>n \<le> rows\<close> returns 0 and leaves a table of \<open>n\<close> rows, whose walk yields
  the header (if any) and rows \<open>0 .. n - 1\<close> and then ends; with \<open>n > rows\<close> it
  returns \<open>-EINVAL\<close> and leaves the table as it was.
\<close>

theorem seq_tab_trim_spec:
  assumes "skip_first p \<le> 1" and "0 < width p"
  shows "(n \<le> rows p \<longrightarrow>
            fst (seq_tab_trim p n) = 0
          \<and> snd (seq_tab_trim p n) = p\<lparr>rows := n\<rparr>
          \<and> fst (seq_tab_walk (snd (seq_tab_trim p n)) (n + skip_first p)) = NULL
          \<and> (\<forall>k < n + skip_first p.
                fst (seq_tab_walk (snd (seq_tab_trim p n)) k) \<noteq> NULL)
          \<and> (\<forall>k off. fst (seq_tab_walk (snd (seq_tab_trim p n)) k) = DataPtr off \<longrightarrow>
                (\<exists>i. seq_tab_show_idx (snd (seq_tab_trim p n)) off = Some i
                     \<and> 0 \<le> i \<and> i < int n)))
       \<and> (n > rows p \<longrightarrow>
            fst (seq_tab_trim p n) = errno_val EINVAL
          \<and> snd (seq_tab_trim p n) = p)"
proof (cases "n \<le> rows p")
  case True
  let ?q = "p\<lparr>rows := n\<rparr>"
  have q: "seq_tab_trim p n = (0, ?q)" using True by (simp add: seq_tab_trim_def)
  have sk: "skip_first ?q \<le> 1" and wd: "0 < width ?q" using assms by simp_all
  have a: "fst (seq_tab_walk ?q (n + skip_first p)) = NULL"
    using seq_tab_walk_end [OF sk] by simp
  have b: "\<forall>k < n + skip_first p. fst (seq_tab_walk ?q k) \<noteq> NULL"
    using seq_tab_walk_before_end [OF sk] by simp
  have c: "\<forall>k off. fst (seq_tab_walk ?q k) = DataPtr off \<longrightarrow>
             (\<exists>i. seq_tab_show_idx ?q off = Some i \<and> 0 \<le> i \<and> i < int n)"
    using seq_tab_walk_row_bound [OF sk wd] by simp
  from a b c show ?thesis using True by (simp only: q fst_conv snd_conv) simp
next
  case False
  then show ?thesis by (simp add: seq_tab_trim_def)
qed

theorem seq_tab_trim_spec_witness:
  "skip_first \<lparr>rows = 4, width = 16, skip_first = 0\<rparr> \<le> 1
   \<and> 0 < width \<lparr>rows = 4, width = 16, skip_first = 0\<rparr>
   \<and> seq_tab_trim \<lparr>rows = 4, width = 16, skip_first = 0\<rparr> 2
       = (0, \<lparr>rows = 2, width = 16, skip_first = 0\<rparr>)
   \<and> fst (seq_tab_walk \<lparr>rows = 2, width = 16, skip_first = 0\<rparr> 2) = NULL
   \<and> seq_tab_trim \<lparr>rows = 4, width = 16, skip_first = 0\<rparr> 5
       = (- 22, \<lparr>rows = 4, width = 16, skip_first = 0\<rparr>)"
proof -
  let ?p = "\<lparr>rows = 4, width = 16, skip_first = 0\<rparr>"
  have h1: "skip_first ?p \<le> 1" and h2: "0 < width ?p" by simp_all
  have t: "seq_tab_trim ?p 2 = (0, \<lparr>rows = 2, width = 16, skip_first = 0\<rparr>)"
    by (simp add: seq_tab_trim_def)
  have "fst (seq_tab_walk \<lparr>rows = 2, width = 16, skip_first = 0\<rparr> 2) = NULL"
    using seq_tab_trim_spec [OF h1 h2, of 2] by (simp add: t)
  moreover have "seq_tab_trim ?p 5 = (- 22, ?p)"
    using seq_tab_trim_spec [OF h1 h2, of 5] by (simp add: prod_eq_iff)
  ultimately show ?thesis using t by simp
qed

text \<open>
  In \<open>cim_obq_open\<close> the table keeps one row for every four words read, as long as
  the read did not return more words than the table holds.
\<close>

lemma cim_obq_open_rows:
  assumes "cim_obq_open sz alloc_ok ret = Inr p" and "nat (ret div 4) \<le> 6 * sz"
  shows "rows p = nat (ret div 4) \<and> width p = 16 \<and> skip_first p = 0"
  using assms
  by (auto simp: cim_obq_open_def seq_open_tab_def seq_tab_trim_def
           split: if_splits option.splits)

section \<open>Properties of the device log\<close>

lemma word32_less_max: "(x::32 word) < NOT 0 \<longleftrightarrow> x \<noteq> NOT 0"
  by (simp add: less_le)

lemma devlog_scan_inv_step:
  assumes "devlog_scan_inv lg index fs f" and "index < length lg"
  shows "timestamp (lg ! index) = 0 \<Longrightarrow> devlog_scan_inv lg (index + 1) fs f"
    and "timestamp (lg ! index) \<noteq> 0 \<Longrightarrow> be32_to_cpu (seqno (lg ! index)) < fs \<Longrightarrow>
         devlog_scan_inv lg (index + 1) (be32_to_cpu (seqno (lg ! index))) index"
    and "timestamp (lg ! index) \<noteq> 0 \<Longrightarrow> \<not> be32_to_cpu (seqno (lg ! index)) < fs \<Longrightarrow>
         devlog_scan_inv lg (index + 1) fs f"
proof -
  show "timestamp (lg ! index) = 0 \<Longrightarrow> devlog_scan_inv lg (index + 1) fs f"
    using assms(1) unfolding devlog_scan_inv_def
    by (auto simp: less_Suc_eq)
next
  assume ts: "timestamp (lg ! index) \<noteq> 0" and lt: "be32_to_cpu (seqno (lg ! index)) < fs"
  let ?sq = "be32_to_cpu (seqno (lg ! index))"
  have ne: "?sq \<noteq> NOT 0" using lt by (metis word32_less_max not_less_iff_gr_or_eq order_less_trans)
  have a: "\<forall>j < index + 1. timestamp (lg ! j) \<noteq> 0 \<longrightarrow> ?sq \<le> be32_to_cpu (seqno (lg ! j))"
    using assms(1) lt unfolding devlog_scan_inv_def
    by (auto simp: less_Suc_eq)
  have b: "\<forall>j < index. timestamp (lg ! j) \<noteq> 0 \<longrightarrow> ?sq < be32_to_cpu (seqno (lg ! j))"
    using assms(1) lt ne unfolding devlog_scan_inv_def
    by (auto simp: less_le)
  show "devlog_scan_inv lg (index + 1) ?sq index"
    unfolding devlog_scan_inv_def using ts ne a b by simp
next
  assume ts: "timestamp (lg ! index) \<noteq> 0" and nlt: "\<not> be32_to_cpu (seqno (lg ! index)) < fs"
  have a: "fs = NOT 0 \<Longrightarrow> be32_to_cpu (seqno (lg ! index)) = NOT 0"
    using nlt word32_less_max by blast
  have b: "fs \<le> be32_to_cpu (seqno (lg ! index))" using nlt by simp
  show "devlog_scan_inv lg (index + 1) fs f"
    using assms(1) a b unfolding devlog_scan_inv_def
    by (auto simp: less_Suc_eq)
qed

lemma devlog_scan_inv_final:
  "devlog_scan_inv lg index fs f \<Longrightarrow> index \<le> length lg \<Longrightarrow>
   devlog_scan_inv lg (length lg) (fst (devlog_scan lg index fs f)) (snd (devlog_scan lg index fs f))"
proof (induction lg index fs f rule: devlog_scan.induct)
  case (1 lg index fseqno fst_idx)
  show ?case
  proof (cases "index < length lg")
    case False
    with "1.prems" show ?thesis by simp
  next
    case True
    note st = devlog_scan_inv_step [OF "1.prems"(1) True]
    show ?thesis
    proof (cases "timestamp (lg ! index) = 0")
      case z: True
      from "1.IH"(1) [OF True refl z st(1) [OF z]] True z show ?thesis by simp
    next
      case nz: False
      show ?thesis
      proof (cases "be32_to_cpu (seqno (lg ! index)) < fseqno")
        case lt: True
        from "1.IH"(2) [OF True refl nz refl lt st(2) [OF nz lt]] True nz lt
        show ?thesis by (simp add: Let_def)
      next
        case nlt: False
        from "1.IH"(3) [OF True refl nz refl nlt st(3) [OF nz nlt]] True nz nlt
        show ?thesis by (simp add: Let_def)
      qed
    qed
  qed
qed

lemma devlog_scan_inv_init: "devlog_scan_inv lg 0 (NOT 0) 0"
  by (simp add: devlog_scan_inv_def)

lemma devlog_scan_result_inv:
  "devlog_scan_inv lg (length lg) (fst (devlog_scan lg 0 (NOT 0) 0)) (snd (devlog_scan lg 0 (NOT 0) 0))"
  using devlog_scan_inv_final [OF devlog_scan_inv_init, of lg] by simp

lemma devlog_open_Inr:
  "devlog_open dstart alloc_ok (Inr lg) = Inr d \<Longrightarrow>
   nentries d = length lg \<and> log d = lg \<and> first d = snd (devlog_scan lg 0 (NOT 0) 0)"
  by (auto simp: devlog_open_def split: if_splits)

lemma word32_max_numeral: "(0xFFFFFFFF :: 32 word) = NOT 0"
  by simp

text \<open>What the invariant gives at the end of the scan, in the two cases.\<close>

lemma devlog_scan_selected:
  assumes "devlog_scan_inv lg n fs f" and "j < n" and "timestamp (lg ! j) \<noteq> 0"
    and "be32_to_cpu (seqno (lg ! j)) \<noteq> NOT 0"
  shows "f < n" and "timestamp (lg ! f) \<noteq> 0"
    and "\<forall>k < n. timestamp (lg ! k) \<noteq> 0 \<longrightarrow> be32_to_cpu (seqno (lg ! f)) \<le> be32_to_cpu (seqno (lg ! k))"
    and "\<forall>k < f. timestamp (lg ! k) \<noteq> 0 \<longrightarrow> be32_to_cpu (seqno (lg ! f)) < be32_to_cpu (seqno (lg ! k))"
proof -
  have "\<not> (\<forall>k < n. timestamp (lg ! k) \<noteq> 0 \<longrightarrow> be32_to_cpu (seqno (lg ! k)) = NOT 0)"
    using assms(2-4) by blast
  with assms(1) have sel: "f < n \<and> timestamp (lg ! f) \<noteq> 0
          \<and> be32_to_cpu (seqno (lg ! f)) = fs \<and> fs \<noteq> NOT 0
          \<and> (\<forall>j < n. timestamp (lg ! j) \<noteq> 0 \<longrightarrow> fs \<le> be32_to_cpu (seqno (lg ! j)))
          \<and> (\<forall>j < f. timestamp (lg ! j) \<noteq> 0 \<longrightarrow> fs < be32_to_cpu (seqno (lg ! j)))"
    unfolding devlog_scan_inv_def by blast
  from sel show "f < n" by blast
  from sel show "timestamp (lg ! f) \<noteq> 0" by blast
  from sel show "\<forall>k < n. timestamp (lg ! k) \<noteq> 0 \<longrightarrow> be32_to_cpu (seqno (lg ! f)) \<le> be32_to_cpu (seqno (lg ! k))" by blast
  from sel show "\<forall>k < f. timestamp (lg ! k) \<noteq> 0 \<longrightarrow> be32_to_cpu (seqno (lg ! f)) < be32_to_cpu (seqno (lg ! k))" by blast
qed

lemma devlog_scan_none_used:
  assumes "devlog_scan_inv lg n fs f" and "\<forall>j < n. timestamp (lg ! j) = 0"
  shows "f = 0"
proof -
  from assms(1) have "f = 0 \<or> (f < n \<and> timestamp (lg ! f) \<noteq> 0)"
    unfolding devlog_scan_inv_def by blast
  with assms(2) show ?thesis by blast
qed

lemma devlog_scan_first_range:
  assumes "devlog_scan_inv lg n fs f" and "0 < n"
  shows "f < n"
proof -
  from assms(1) have "f = 0 \<or> f < n"
    unfolding devlog_scan_inv_def by blast
  with assms(2) show ?thesis by blast
qed

lemma devlog_open_first_range:
  assumes "devlog_open dstart alloc_ok (Inr lg) = Inr d" and "lg \<noteq> []"
  shows "first d < nentries d"
  using devlog_scan_first_range [OF devlog_scan_result_inv [of lg]] devlog_open_Inr [OF assms(1)] assms(2)
  by simp

lemma devlog_show_unused:
  assumes "\<forall>j < length (log d). timestamp (log d ! j) = 0" and "first d = 0" and "i < length (log d)"
   and "nentries d = length (log d)"
  shows "devlog_show d (int i + 2) = Some []"
proof -
  let ?x = "int i mod 2 ^ 32"
  have x: "0 \<le> ?x" "?x \<le> int i" by (simp_all add: zmod_le_nonneg_dividend)
  then have lt: "?x < int (length (log d))" using assms(3) by linarith
  hence idx: "devlog_index d (int i + 2) = ?x"
    using assms(2,4) by (simp add: devlog_index_def)
  have "nat ?x < length (log d)" using lt x by linarith
  then have "timestamp (log d ! nat ?x) = 0" using assms(1) by blast
  then show "devlog_show d (int i + 2) = Some []"
    using lt unfolding devlog_show_def idx by (simp add: Let_def)
qed

text \<open>
  What the scan of \<open>devlog_open\<close> establishes. If some entry with a nonzero timestamp
  has a sequence number below \<open>0xffffffff\<close>, the value the running minimum starts
  from, then \<open>first\<close> is the index of an entry with a nonzero timestamp whose sequence
  number is the unsigned minimum over all entries with a nonzero timestamp, and it is
  the lowest such index: every used entry before \<open>first\<close> has a strictly larger
  sequence number. If every entry has a zero timestamp, \<open>first\<close> stays 0 and
  \<open>devlog_show\<close> prints nothing for any of the entries.
\<close>

lemma devlog_scan_minimum:
  assumes "devlog_open dstart alloc_ok (Inr lg) = Inr d"
  shows "((\<exists>j < length lg. timestamp (lg ! j) \<noteq> 0 \<and> be32_to_cpu (seqno (lg ! j)) < 0xFFFFFFFF) \<longrightarrow>
            first d < length lg \<and> timestamp (lg ! first d) \<noteq> 0
          \<and> (\<forall>j < length lg. timestamp (lg ! j) \<noteq> 0 \<longrightarrow>
                be32_to_cpu (seqno (lg ! first d)) \<le> be32_to_cpu (seqno (lg ! j)))
          \<and> (\<forall>j < first d. timestamp (lg ! j) \<noteq> 0 \<longrightarrow>
                be32_to_cpu (seqno (lg ! first d)) < be32_to_cpu (seqno (lg ! j))))
       \<and> ((\<forall>j < length lg. timestamp (lg ! j) = 0) \<longrightarrow>
            first d = 0 \<and> (\<forall>i < length lg. devlog_show d (int i + 2) = Some []))"
proof -
  note d = devlog_open_Inr [OF assms]
  have inv: "devlog_scan_inv lg (length lg) (fst (devlog_scan lg 0 (NOT 0) 0)) (first d)"
    using devlog_scan_result_inv [of lg] d by simp
  have a: "(\<exists>j < length lg. timestamp (lg ! j) \<noteq> 0 \<and> be32_to_cpu (seqno (lg ! j)) < 0xFFFFFFFF) \<longrightarrow>
            first d < length lg \<and> timestamp (lg ! first d) \<noteq> 0
          \<and> (\<forall>j < length lg. timestamp (lg ! j) \<noteq> 0 \<longrightarrow>
                be32_to_cpu (seqno (lg ! first d)) \<le> be32_to_cpu (seqno (lg ! j)))
          \<and> (\<forall>j < first d. timestamp (lg ! j) \<noteq> 0 \<longrightarrow>
                be32_to_cpu (seqno (lg ! first d)) < be32_to_cpu (seqno (lg ! j)))"
  proof
    assume "\<exists>j < length lg. timestamp (lg ! j) \<noteq> 0 \<and> be32_to_cpu (seqno (lg ! j)) < 0xFFFFFFFF"
    then obtain j where j: "j < length lg" "timestamp (lg ! j) \<noteq> 0"
      and lt: "be32_to_cpu (seqno (lg ! j)) < 0xFFFFFFFF" by blast
    from lt have "be32_to_cpu (seqno (lg ! j)) \<noteq> 0xFFFFFFFF"
      by (rule less_imp_neq)
    then have "be32_to_cpu (seqno (lg ! j)) \<noteq> NOT 0"
      by (simp only: word32_max_numeral not_False_eq_True)
    from devlog_scan_selected [OF inv j this]
    show "first d < length lg \<and> timestamp (lg ! first d) \<noteq> 0
          \<and> (\<forall>j < length lg. timestamp (lg ! j) \<noteq> 0 \<longrightarrow>
                be32_to_cpu (seqno (lg ! first d)) \<le> be32_to_cpu (seqno (lg ! j)))
          \<and> (\<forall>j < first d. timestamp (lg ! j) \<noteq> 0 \<longrightarrow>
                be32_to_cpu (seqno (lg ! first d)) < be32_to_cpu (seqno (lg ! j)))"
      by blast
  qed
  have b: "(\<forall>j < length lg. timestamp (lg ! j) = 0) \<longrightarrow>
            first d = 0 \<and> (\<forall>i < length lg. devlog_show d (int i + 2) = Some [])"
  proof (intro impI)
    assume z: "\<forall>j < length lg. timestamp (lg ! j) = 0"
    have f0: "first d = 0" using devlog_scan_none_used [OF inv z] .
    have "\<forall>i < length lg. devlog_show d (int i + 2) = Some []"
      using devlog_show_unused [of d] z f0 d by simp
    with f0 show "first d = 0 \<and> (\<forall>i < length lg. devlog_show d (int i + 2) = Some [])" by blast
  qed
  from a b show ?thesis by blast
qed

text \<open>
  The sequence numbers 5, 1, 3 with nonzero timestamps give \<open>first = 1\<close>, the index
  holding 1; 7, 2, 2 give \<open>first = 1\<close>, the lower index of the two that hold 2; for a
  log of unused entries \<open>first\<close> stays 0.
\<close>

lemma devlog_open_examples:
  "devlog_open 1 True (Inr [devlog_entry 7 (BE32 0 0 0 5), devlog_entry 8 (BE32 0 0 0 1),
                            devlog_entry 9 (BE32 0 0 0 3)])
     = Inr \<lparr>nentries = 3, first = 1,
            log = [devlog_entry 7 (BE32 0 0 0 5), devlog_entry 8 (BE32 0 0 0 1),
                   devlog_entry 9 (BE32 0 0 0 3)]\<rparr>"
  "devlog_open 1 True (Inr [devlog_entry 4 (BE32 0 0 0 7), devlog_entry 5 (BE32 0 0 0 2),
                            devlog_entry 6 (BE32 0 0 0 2)])
     = Inr \<lparr>nentries = 3, first = 1,
            log = [devlog_entry 4 (BE32 0 0 0 7), devlog_entry 5 (BE32 0 0 0 2),
                   devlog_entry 6 (BE32 0 0 0 2)]\<rparr>"
  "devlog_open 1 True (Inr [devlog_entry 0 (BE32 0 0 0 5), devlog_entry 0 (BE32 0 0 0 1)])
     = Inr \<lparr>nentries = 2, first = 0,
            log = [devlog_entry 0 (BE32 0 0 0 5), devlog_entry 0 (BE32 0 0 0 1)]\<rparr>"
  by code_simp+

text \<open>
  C2. The claim has \<open>first\<close> be the index of an entry with a nonzero timestamp whose
  sequence number is the unsigned minimum over the entries with a nonzero timestamp,
  and the comment in \<open>devlog_open\<close> says the same (\<open>Find the earliest (lowest Sequence
  Number) log entry\<close>). The code does not do that on a log whose used entries all
  carry the sequence number \<open>0xffffffff\<close>: \<open>fseqno\<close> starts at \<open>~0\<close>, the test
  \<open>seqno < fseqno\<close> is strict, so no entry is ever selected and \<open>first\<close> keeps the 0
  it was set to before the scan. Here entry 0 is unused and entry 1 is the only used
  one, with sequence number \<open>0xffffffff\<close>, the minimum over the used entries;
  \<open>devlog_open\<close> leaves \<open>first = 0\<close>, the index of the unused entry, not 1.
\<close>

theorem devlog_open_max_seqno_first:
  "devlog_open 1 True (Inr [devlog_entry 0 (BE32 0 0 0 0), devlog_entry 1 (BE32 255 255 255 255)])
     = Inr \<lparr>nentries = 2, first = 0,
            log = [devlog_entry 0 (BE32 0 0 0 0), devlog_entry 1 (BE32 255 255 255 255)]\<rparr>
   \<and> timestamp ([devlog_entry 0 (BE32 0 0 0 0), devlog_entry 1 (BE32 255 255 255 255)] ! 0) = 0
   \<and> timestamp ([devlog_entry 0 (BE32 0 0 0 0), devlog_entry 1 (BE32 255 255 255 255)] ! 1) \<noteq> 0
   \<and> be32_to_cpu (seqno ([devlog_entry 0 (BE32 0 0 0 0),
                           devlog_entry 1 (BE32 255 255 255 255)] ! 1)) = 0xFFFFFFFF"
proof -
  have "devlog_open 1 True (Inr [devlog_entry 0 (BE32 0 0 0 0), devlog_entry 1 (BE32 255 255 255 255)])
     = Inr \<lparr>nentries = 2, first = 0,
            log = [devlog_entry 0 (BE32 0 0 0 0), devlog_entry 1 (BE32 255 255 255 255)]\<rparr>"
    by code_simp
  then show ?thesis by (simp add: devlog_entry_def)
qed

text \<open>
  C10. The claim has the lowest index among the used entries that share the minimal
  sequence number be selected as \<open>first\<close>. Through the same strict test against the
  initial \<open>~0\<close> the code does not select it when that shared minimum is
  \<open>0xffffffff\<close>: entries 1 and 2 are the used ones and both carry \<open>0xffffffff\<close>, entry
  0 is unused, and \<open>devlog_open\<close> leaves \<open>first = 0\<close>, not 1.
\<close>

theorem devlog_open_max_seqno_tie:
  "devlog_open 1 True (Inr [devlog_entry 0 (BE32 0 0 0 0), devlog_entry 1 (BE32 255 255 255 255),
                            devlog_entry 2 (BE32 255 255 255 255)])
     = Inr \<lparr>nentries = 3, first = 0,
            log = [devlog_entry 0 (BE32 0 0 0 0), devlog_entry 1 (BE32 255 255 255 255),
                   devlog_entry 2 (BE32 255 255 255 255)]\<rparr>
   \<and> timestamp (devlog_entry 0 (BE32 0 0 0 0)) = 0
   \<and> timestamp (devlog_entry 1 (BE32 255 255 255 255)) \<noteq> 0
   \<and> timestamp (devlog_entry 2 (BE32 255 255 255 255)) \<noteq> 0
   \<and> be32_to_cpu (seqno (devlog_entry 1 (BE32 255 255 255 255)))
       = be32_to_cpu (seqno (devlog_entry 2 (BE32 255 255 255 255)))"
proof -
  have "devlog_open 1 True (Inr [devlog_entry 0 (BE32 0 0 0 0), devlog_entry 1 (BE32 255 255 255 255),
                            devlog_entry 2 (BE32 255 255 255 255)])
     = Inr \<lparr>nentries = 3, first = 0,
            log = [devlog_entry 0 (BE32 0 0 0 0), devlog_entry 1 (BE32 255 255 255 255),
                   devlog_entry 2 (BE32 255 255 255 255)]\<rparr>"
    by code_simp
  then show ?thesis by (simp add: devlog_entry_def)
qed









section \<open>Properties of the field decoder\<close>






section \<open>Properties of the MPS TCAM display\<close>

text \<open>
  C7 (amended). An entry is shown as the dash line exactly when the X word and the Y
  word have a one in common in at least one bit position, that is when
  \<open>tcamx & tcamy\<close> is not zero; otherwise it is decoded, with the mask \<open>x | y\<close>.
\<close>

theorem mps_tcam_show_dash_iff:
  "(mps_tcam_show ti x y = TcamDash ti \<longleftrightarrow> (\<exists>n. bit x n \<and> bit y n))
   \<and> ((\<forall>n. \<not> (bit x n \<and> bit y n)) \<longrightarrow>
        mps_tcam_show ti x y = TcamRow ti (fst (tcamxy2valmask x y)) (x OR y))"
proof -
  have "x AND y = 0 \<longleftrightarrow> (\<forall>n. \<not> bit (x AND y) n)"
    by (rule iffI) (simp, rule bit_eqI, simp)
  then have nz: "x AND y \<noteq> 0 \<longleftrightarrow> (\<exists>n. bit x n \<and> bit y n)"
    by (simp add: bit_and_iff)
  show ?thesis
  proof (cases "x AND y = 0")
    case True
    then show ?thesis using nz
      by (simp add: mps_tcam_show_def tcamxy2valmask_def)
  next
    case False
    then show ?thesis using nz
      by (simp add: mps_tcam_show_def)
  qed
qed

text \<open>\<open>0xFF\<close> and \<open>0xFF\<close> give the dash line, \<open>0x0F\<close> and \<open>0xF0\<close> a decoded line.\<close>

theorem mps_tcam_show_dash_iff_witness:
  "mps_tcam_show 3 0xFF 0xFF = TcamDash 3
   \<and> mps_tcam_show 3 0x0F 0xF0 = TcamRow 3 [0, 0, 0, 0, 0, 0xF0] 0xFF
   \<and> (\<forall>n. \<not> (bit (0x0F :: 64 word) n \<and> bit (0xF0 :: 64 word) n))"
proof -
  have r: "mps_tcam_show 3 0x0F 0xF0 = TcamRow 3 [0, 0, 0, 0, 0, 0xF0] 0xFF"
    by (simp add: mps_tcam_show_def tcamxy2valmask_def upt_rec)
  then have "mps_tcam_show 3 0x0F 0xF0 \<noteq> TcamDash 3" by simp
  then have n: "\<forall>n. \<not> (bit (0x0F :: 64 word) n \<and> bit (0xF0 :: 64 word) n)"
    using mps_tcam_show_dash_iff [of 3 "0x0F" "0xF0"] by blast
  have d: "mps_tcam_show 3 0xFF 0xFF = TcamDash 3"
    by (simp add: mps_tcam_show_def)
  from r n d show ?thesis by blast
qed

text \<open>
  C7 as stated fails: with \<open>tcamx = tcamy = 1\<close> the entry is shown as the dash line,
  although \<open>tcamx & tcamy\<close> is zero in bit position 1 (and in every position but 0).
\<close>

theorem mps_tcam_one_bit_counterexample:
  "mps_tcam_show 0 1 1 = TcamDash 0 \<and> \<not> bit ((1 :: 64 word) AND 1) 1"
  by (simp add: mps_tcam_show_def)

section \<open>Properties of the RSS key parser\<close>

lemma rss_key_word_rest:
  "rss_key_word n k p = Some (k1, p1) \<Longrightarrow> p1 = drop n p"
proof (induction n arbitrary: k p)
  case 0
  then show ?case by simp
next
  case (Suc n)
  then show ?case by (cases p) (auto split: if_splits)
qed

lemma rss_key_word_Some_iff:
  "(\<exists>r. rss_key_word n k p = Some r) \<longleftrightarrow>
   n \<le> length p \<and> (\<forall>c \<in> set (take n p). isxdigit c)"
proof (induction n arbitrary: k p)
  case 0
  then show ?case by simp
next
  case (Suc n)
  show ?case
  proof (cases p)
    case Nil
    then show ?thesis by simp
  next
    case (Cons c cs)
    then show ?thesis using Suc [of "push_bit 4 k OR hex2val c" cs] by simp
  qed
qed

lemma rss_key_words_Some_iff:
  "(\<exists>r. rss_key_words m key p = Some r) \<longleftrightarrow>
   8 * m \<le> length p \<and> (\<forall>c \<in> set (take (8 * m) p). isxdigit c)"
proof (induction m arbitrary: key p)
  case 0
  then show ?case by simp
next
  case (Suc m)
  have tk: "take (8 * Suc m) p = take 8 p @ take (8 * m) (drop 8 p)"
    by (simp add: take_add [symmetric])
  show ?case
  proof (cases "rss_key_word 8 0 p")
    case None
    then have "\<not> (8 \<le> length p \<and> (\<forall>c \<in> set (take 8 p). isxdigit c))"
      using rss_key_word_Some_iff [of 8 0 p] by simp
    then have "\<not> (8 * Suc m \<le> length p \<and> (\<forall>c \<in> set (take (8 * Suc m) p). isxdigit c))"
      unfolding tk by auto
    then show ?thesis using None by simp
  next
    case (Some r)
    obtain k p1 where r: "r = (k, p1)" by (cases r)
    have p1: "p1 = drop 8 p" using rss_key_word_rest Some r by blast
    have w: "8 \<le> length p \<and> (\<forall>c \<in> set (take 8 p). isxdigit c)"
      using rss_key_word_Some_iff [of 8 0 p] Some by simp
    have "(\<exists>r. rss_key_words (Suc m) key p = Some r) \<longleftrightarrow>
          (\<exists>r. rss_key_words m (key[m := k]) (drop 8 p) = Some r)"
      using Some r p1 by simp
    also have "\<dots> \<longleftrightarrow> 8 * m \<le> length (drop 8 p)
                 \<and> (\<forall>c \<in> set (take (8 * m) (drop 8 p)). isxdigit c)"
      by (rule Suc)
    also have "\<dots> \<longleftrightarrow> 8 * Suc m \<le> length p
                 \<and> (\<forall>c \<in> set (take (8 * Suc m) p). isxdigit c)"
      unfolding tk using w by auto
    finally show ?thesis .
  qed
qed

text \<open>
  C8 (amended). With the copy from user space succeeding, \<open>rss_key_write\<close> accepts an
  input (hands a key to the hardware and returns the byte count) exactly when the
  input has at most 99 bytes and, after trimming trailing white space, begins with 80
  hex digits; what follows the 80th digit is not looked at. Every other input is
  rejected with \<open>-EINVAL\<close> and no key is written.
\<close>

theorem rss_key_write_accepts_iff:
  "((\<exists>key. rss_key_write True buf = (Some key, int (length buf))) \<longleftrightarrow>
      length buf \<le> 99
      \<and> 80 \<le> length (rev (dropWhile isspace (rev buf)))
      \<and> (\<forall>c \<in> set (take 80 (rev (dropWhile isspace (rev buf)))). isxdigit c))
   \<and> ((\<forall>key. rss_key_write True buf \<noteq> (Some key, int (length buf))) \<longrightarrow>
        rss_key_write True buf = (None, errno_val EINVAL))"
proof (cases "length buf \<le> 99")
  case False
  then show ?thesis by (simp add: rss_key_write_def)
next
  case True
  let ?s = "rev (dropWhile isspace (rev buf))"
  have iff: "(\<exists>r. rss_key_words 10 (replicate 10 0) ?s = Some r) \<longleftrightarrow>
        80 \<le> length ?s \<and> (\<forall>c \<in> set (take 80 ?s). isxdigit c)"
    using rss_key_words_Some_iff [of 10 "replicate 10 0" ?s] by simp
  show ?thesis
  proof (cases "rss_key_words 10 (replicate 10 0) ?s")
    case None
    then have "rss_key_write True buf = (None, errno_val EINVAL)"
      using True by (simp add: rss_key_write_def Let_def)
    then show ?thesis using iff None by simp
  next
    case (Some key)
    then have "rss_key_write True buf = (Some key, int (length buf))"
      using True by (simp add: rss_key_write_def Let_def)
    then show ?thesis using iff Some True by simp
  qed
qed

theorem rss_key_write_accepts_iff_witness:
  "rss_key_write True (replicate 79 CHR ''0'' @ ''1 '') = (Some (1 # replicate 9 0), 81)
   \<and> length (replicate 79 CHR ''0'' @ ''1 '') \<le> 99
   \<and> rss_key_write True (replicate 79 CHR ''0'') = (None, - 22)"
proof -
  have a: "rss_key_write True (replicate 79 CHR ''0'' @ ''1 '') = (Some (1 # replicate 9 0), 81)"
    by code_simp
  then have "\<exists>key. rss_key_write True (replicate 79 CHR ''0'' @ ''1 '')
                = (Some key, int (length (replicate 79 CHR ''0'' @ ''1 '')))"
    by simp
  then have b: "length (replicate 79 CHR ''0'' @ ''1 '') \<le> 99"
    using rss_key_write_accepts_iff [of "replicate 79 CHR ''0'' @ ''1 ''"] by blast
  have "\<not> 80 \<le> length (rev (dropWhile isspace (rev (replicate 79 CHR ''0''))))"
    by simp
  then have "\<forall>key. rss_key_write True (replicate 79 CHR ''0'')
                \<noteq> (Some key, int (length (replicate 79 CHR ''0'')))"
    using rss_key_write_accepts_iff [of "replicate 79 CHR ''0''"] by blast
  then have "rss_key_write True (replicate 79 CHR ''0'') = (None, errno_val EINVAL)"
    using rss_key_write_accepts_iff [of "replicate 79 CHR ''0''"] by blast
  then have c: "rss_key_write True (replicate 79 CHR ''0'') = (None, - 22)" by simp
  from a b c show ?thesis by blast
qed

text \<open>
  C8 as stated fails on an input longer than 80 characters whose first 80 are hex
  digits: these 83 bytes are accepted and the key is written.
\<close>

theorem rss_key_trailing_counterexample:
  "rss_key_write True (replicate 80 CHR ''a'' @ ''xyz'')
     = (Some (replicate 10 0xAAAAAAAA), 83)"
  by code_simp

section \<open>Properties of the memory map\<close>


text \<open>
  What the loop from index \<open>i\<close> on leaves in the array and prints: entries below
  \<open>i\<close> are untouched, a named entry without a limit gets one from its successor, and
  a line is printed for every named entry.
\<close>

lemma meminfo_loop_spec:
  assumes "meminfo_loop mem i = (mem2, out)"
  shows "length mem2 = length mem
    \<and> (\<forall>k < length mem. mem2 ! k =
          (if i \<le> k \<and> idx (mem ! k) < length region \<and> limit (mem ! k) = 0
           then (mem ! k)\<lparr>limit := (if k + 1 < length mem then base (mem ! (k + 1)) - 1
                                     else NOT 0)\<rparr>
           else mem ! k))
    \<and> out = map (\<lambda>m. (idx m, base m, limit m))
                (filter (\<lambda>m. idx m < length region) (drop i mem2))"
  using assms
proof (induction mem i arbitrary: mem2 out rule: meminfo_loop.induct)
  case (1 mem i)
  show ?case
  proof (cases "i < length mem")
    case False
    with "1.prems" show ?thesis by (simp add: meminfo_loop.simps)
  next
    case True
    note i = True
    show ?thesis
    proof (cases "idx (mem ! i) \<ge> length region")
      case True
      then have r: "meminfo_loop mem (i + 1) = (mem2, out)"
        using "1.prems" i by (simp add: meminfo_loop.simps [of mem i])
      note ih = "1.IH"(1) [OF i True r]
      have len: "length mem2 = length mem" using ih by blast
      have el: "\<forall>k < length mem. mem2 ! k =
          (if i \<le> k \<and> idx (mem ! k) < length region \<and> limit (mem ! k) = 0
           then (mem ! k)\<lparr>limit := (if k + 1 < length mem then base (mem ! (k + 1)) - 1
                                     else NOT 0)\<rparr>
           else mem ! k)"
      proof (intro allI impI)
        fix k assume k: "k < length mem"
        show "mem2 ! k =
          (if i \<le> k \<and> idx (mem ! k) < length region \<and> limit (mem ! k) = 0
           then (mem ! k)\<lparr>limit := (if k + 1 < length mem then base (mem ! (k + 1)) - 1
                                     else NOT 0)\<rparr>
           else mem ! k)"
          using ih k True by (cases "k = i") auto
      qed
      have "mem2 ! i = mem ! i" using el i True by simp
      then have "\<not> idx (mem2 ! i) < length region" using True by simp
      moreover have "drop i mem2 = mem2 ! i # drop (i + 1) mem2"
        using i len by (simp add: Cons_nth_drop_Suc)
      ultimately have "filter (\<lambda>m. idx m < length region) (drop i mem2)
                     = filter (\<lambda>m. idx m < length region) (drop (i + 1) mem2)"
        by simp
      then show ?thesis using ih len el by simp
    next
      case False
      define mem1 where "mem1 =
                        (if limit (mem ! i) = 0
                         then mem[i := (mem ! i)\<lparr>limit :=
                                 (if int i < int (length mem) - 1 then base (mem ! (i + 1)) - 1
                                  else NOT 0)\<rparr>]
                         else mem)"
      obtain m2 o2 where r: "meminfo_loop mem1 (i + 1) = (m2, o2)"
        by (cases "meminfo_loop mem1 (i + 1)")
      have res: "mem2 = m2" "out = (idx (mem1 ! i), base (mem1 ! i), limit (mem1 ! i)) # o2"
        using "1.prems" i False r unfolding mem1_def [symmetric]
        by (simp_all add: meminfo_loop.simps [of mem i] mem1_def [symmetric] Let_def)
      note ih = "1.IH"(2) [OF i False mem1_def r]
      have l1: "length mem1 = length mem" by (simp add: mem1_def)
      have b1: "\<forall>k < length mem. base (mem1 ! k) = base (mem ! k) \<and> idx (mem1 ! k) = idx (mem ! k)"
        using i by (auto simp: mem1_def nth_list_update)
      have len: "length mem2 = length mem" using ih res l1 by simp
      have m1i: "mem1 ! i = (if limit (mem ! i) = 0
            then (mem ! i)\<lparr>limit := (if i + 1 < length mem then base (mem ! (i + 1)) - 1
                                     else NOT 0)\<rparr> else mem ! i)"
        using i by (auto simp: mem1_def)
      have m1k: "\<forall>k < length mem. k \<noteq> i \<longrightarrow> mem1 ! k = mem ! k"
        by (simp add: mem1_def)
      have el: "\<forall>k < length mem. mem2 ! k =
          (if i \<le> k \<and> idx (mem ! k) < length region \<and> limit (mem ! k) = 0
           then (mem ! k)\<lparr>limit := (if k + 1 < length mem then base (mem ! (k + 1)) - 1
                                     else NOT 0)\<rparr>
           else mem ! k)"
      proof (intro allI impI)
        fix k assume k: "k < length mem"
        have e: "mem2 ! k = (if i + 1 \<le> k \<and> idx (mem1 ! k) < length region \<and> limit (mem1 ! k) = 0
           then (mem1 ! k)\<lparr>limit := (if k + 1 < length mem1 then base (mem1 ! (k + 1)) - 1
                                     else NOT 0)\<rparr>
           else mem1 ! k)"
          using ih res k l1 by simp
        show "mem2 ! k =
          (if i \<le> k \<and> idx (mem ! k) < length region \<and> limit (mem ! k) = 0
           then (mem ! k)\<lparr>limit := (if k + 1 < length mem then base (mem ! (k + 1)) - 1
                                     else NOT 0)\<rparr>
           else mem ! k)"
        proof (cases "k = i")
          case True
          then have "mem2 ! k = mem1 ! i" using e by simp
          then show ?thesis using m1i True False by simp
        next
          case ne: False
          then have "mem1 ! k = mem ! k" using m1k k by simp
          moreover have "k + 1 < length mem \<Longrightarrow> base (mem1 ! (k + 1)) = base (mem ! (k + 1))"
            using b1 by simp
          ultimately show ?thesis using e ne l1 by auto
        qed
      qed
      have "mem2 ! i = mem1 ! i" using ih res i l1 by simp
      moreover have "idx (mem1 ! i) < length region" using b1 i False by simp
      moreover have "drop i mem2 = mem2 ! i # drop (i + 1) mem2"
        using i len by (simp add: Cons_nth_drop_Suc)
      ultimately have "map (\<lambda>m. (idx m, base m, limit m))
                (filter (\<lambda>m. idx m < length region) (drop i mem2))
          = (idx (mem1 ! i), base (mem1 ! i), limit (mem1 ! i))
            # map (\<lambda>m. (idx m, base m, limit m))
                (filter (\<lambda>m. idx m < length region) (drop (i + 1) mem2))"
        by simp
      then show ?thesis using ih res len el by simp
    qed
  qed
qed

text \<open>
  Let \<open>sm\<close> be the array of regions as the sort has left it. Every entry of it
  that names a region (\<open>idx\<close> inside \<open>region[]\<close>) is printed with its base, and with
  its own limit if that is set (nonzero); otherwise with the base of the next entry of
  the array minus 1 (in 32-bit arithmetic), or with \<open>0xffffffff\<close>, which stands for
  unbounded, when it is the last entry.
\<close>

lemma meminfo_limit_inference:
  assumes "meminfo_loop sm 0 = (mem2, out)" and "i < length sm"
    and "idx (sm ! i) < length region"
  shows "limit (mem2 ! i) =
           (if limit (sm ! i) \<noteq> 0 then limit (sm ! i)
            else if i + 1 < length sm then base (sm ! (i + 1)) - 1
            else 0xFFFFFFFF)
       \<and> base (mem2 ! i) = base (sm ! i) \<and> idx (mem2 ! i) = idx (sm ! i)
       \<and> (idx (sm ! i), base (sm ! i), limit (mem2 ! i)) \<in> set out
       \<and> out = map (\<lambda>m. (idx m, base m, limit m))
                   (filter (\<lambda>m. idx m < length region) mem2)"
proof -
  note sp = meminfo_loop_spec [OF assms(1)]
  have len: "length mem2 = length sm" using sp by blast
  have el: "mem2 ! i =
          (if idx (sm ! i) < length region \<and> limit (sm ! i) = 0
           then (sm ! i)\<lparr>limit := (if i + 1 < length sm then base (sm ! (i + 1)) - 1
                                     else NOT 0)\<rparr>
           else sm ! i)"
    using sp assms(2) by simp
  have out: "out = map (\<lambda>m. (idx m, base m, limit m))
                   (filter (\<lambda>m. idx m < length region) mem2)"
    using sp by simp
  have a: "limit (mem2 ! i) =
           (if limit (sm ! i) \<noteq> 0 then limit (sm ! i)
            else if i + 1 < length sm then base (sm ! (i + 1)) - 1
            else 0xFFFFFFFF)"
    using el assms(3) by simp
  have b: "base (mem2 ! i) = base (sm ! i)" "idx (mem2 ! i) = idx (sm ! i)"
    using el by simp_all
  have "mem2 ! i \<in> set mem2" using assms(2) len by simp
  then have "mem2 ! i \<in> set (filter (\<lambda>m. idx m < length region) mem2)"
    using b(2) assms(3) by simp
  then have "(idx (mem2 ! i), base (mem2 ! i), limit (mem2 ! i)) \<in> set out"
    unfolding out by (simp add: image_iff) blast
  then have c: "(idx (sm ! i), base (sm ! i), limit (mem2 ! i)) \<in> set out"
    using b by simp
  from a b c out show ?thesis by blast
qed

text \<open>
  The two examples, on arrays already in the order of their bases: A at 100 with limit
  200 and B at 200 without a limit leave B unbounded; A at 100 and B at 300, both
  without a limit, give A the limit 299.
\<close>

lemma meminfo_loop_examples:
  "meminfo_loop [\<lparr>base = 100, limit = 200, idx = 0\<rparr>, \<lparr>base = 200, limit = 0, idx = 1\<rparr>] 0
     = ([\<lparr>base = 100, limit = 200, idx = 0\<rparr>, \<lparr>base = 200, limit = 0xFFFFFFFF, idx = 1\<rparr>],
        [(0, 100, 200), (1, 200, 0xFFFFFFFF)])"
  "meminfo_loop [\<lparr>base = 100, limit = 0, idx = 0\<rparr>, \<lparr>base = 300, limit = 0, idx = 1\<rparr>] 0
     = ([\<lparr>base = 100, limit = 299, idx = 0\<rparr>, \<lparr>base = 300, limit = 0xFFFFFFFF, idx = 1\<rparr>],
        [(0, 100, 299), (1, 300, 0xFFFFFFFF)])"
  by code_simp+

text \<open>
  C9. The claim has the regions sorted by base address before the limits are filled
  in. \<open>mem_desc_cmp\<close> returns the difference of the two unsigned bases as an \<open>int\<close>,
  which has the sign of the comparison only while the bases are less than \<open>2^31\<close>
  apart. For region 0 at \<open>0xC0000000\<close> and region 1 at \<open>0x10000000\<close>, both without a
  limit, it answers that region 0 comes first, whichever way it is asked, so the sort,
  which orders by that sign, leaves region 0 before region 1. The loop then gives
  region 0 the limit \<open>0x10000000 - 1\<close>, below its own base, and leaves region 1, the
  lower one, unbounded; sorted by base, region 1 would get \<open>0xBFFFFFFF\<close> and region 0
  would be unbounded.
\<close>

theorem meminfo_unsorted_bases:
  "mem_desc_cmp \<lparr>base = 0xC0000000, limit = 0, idx = 0\<rparr>
                \<lparr>base = 0x10000000, limit = 0, idx = 1\<rparr> < 0
   \<and> mem_desc_cmp \<lparr>base = 0x10000000, limit = 0, idx = 1\<rparr>
                  \<lparr>base = 0xC0000000, limit = 0, idx = 0\<rparr> > 0
   \<and> meminfo_loop [\<lparr>base = 0xC0000000, limit = 0, idx = 0\<rparr>,
                   \<lparr>base = 0x10000000, limit = 0, idx = 1\<rparr>] 0
     = ([\<lparr>base = 0xC0000000, limit = 0x0FFFFFFF, idx = 0\<rparr>,
         \<lparr>base = 0x10000000, limit = 0xFFFFFFFF, idx = 1\<rparr>],
        [(0, 0xC0000000, 0x0FFFFFFF), (1, 0x10000000, 0xFFFFFFFF)])"
proof -
  have a: "mem_desc_cmp \<lparr>base = 0xC0000000, limit = 0, idx = 0\<rparr>
                \<lparr>base = 0x10000000, limit = 0, idx = 1\<rparr> < 0"
    by code_simp
  have b: "mem_desc_cmp \<lparr>base = 0x10000000, limit = 0, idx = 1\<rparr>
                  \<lparr>base = 0xC0000000, limit = 0, idx = 0\<rparr> > 0"
    by code_simp
  have c: "meminfo_loop [\<lparr>base = 0xC0000000, limit = 0, idx = 0\<rparr>,
                   \<lparr>base = 0x10000000, limit = 0, idx = 1\<rparr>] 0
     = ([\<lparr>base = 0xC0000000, limit = 0x0FFFFFFF, idx = 0\<rparr>,
         \<lparr>base = 0x10000000, limit = 0xFFFFFFFF, idx = 1\<rparr>],
        [(0, 0xC0000000, 0x0FFFFFFF), (1, 0x10000000, 0xFFFFFFFF)])"
    by code_simp
  from a b c show ?thesis by blast
qed

section \<open>Properties of the trace filter command\<close>










































end
